theory Spec2Isabelle
  imports Complex_Main "HOL-Library.Log_Nat"
begin

section \<open>jquery.timer 1.0.3: the Timer object over a host event loop\<close>

text \<open>
  The development embeds \<^verbatim>\<open>src/build/jquery.timer-1.0.3.js\<close>. The Timer object is a
  record of its nine fields; the host environment (the clock behind
  \<^verbatim>\<open>new Date().getTime()\<close> and the table of tasks behind \<^verbatim>\<open>setTimeout\<close>,
  \<^verbatim>\<open>setInterval\<close>, \<^verbatim>\<open>clearTimeout\<close> and \<^verbatim>\<open>clearInterval\<close>) is a second record; every
  method is a function from world to world.

  Modelling decisions:
  \<^item> Times and the delay are integers (milliseconds, as \<^verbatim>\<open>Date.getTime\<close> returns them).
    The fire count \<^verbatim>\<open>_maxCount\<close> is an integer or \<^verbatim>\<open>Number.POSITIVE_INFINITY\<close>.
    Fractions, NaN and non-numeric arguments are outside the model.
  \<^item> The methods compute in exact integer arithmetic. The source computes in binary64,
    which is exact on integers up to \<open>2 ^ 53\<close> in magnitude. The one expression with a
    division, in \<^verbatim>\<open>getRemainingTime\<close>, is also given with every operation rounded as
    binary64 rounds it (\<open>getRemainingTime64\<close>), and the two are compared.
  \<^item> The clock does not advance while a method or a handler runs: all reads of the
    clock inside one synchronous call see the same value. It advances between events.
  \<^item> The callback is a function from the value of \<^verbatim>\<open>getCount()\<close> it finds to a script of
    calls to the timer's own public methods, run in order with \<^verbatim>\<open>this\<close> bound to the
    timer. \<open>no_calls\<close> is a callback that leaves the timer alone. Each invocation appends
    the count it finds to a log, which is not a field of the source and is kept only to
    count and observe invocations.
  \<^item> The two closures that \<^verbatim>\<open>play\<close> hands to the host are the only handlers there are,
    so a pending task records which of the two it runs, the delay it was given and
    when it is due.
\<close>

subsection \<open>Numbers, states, operations\<close>

datatype jsnum = Num int | PosInf

text \<open>\<^verbatim>\<open>x > 0\<close>, \<^verbatim>\<open>x <= 0\<close> and \<^verbatim>\<open>x--\<close> on a count.\<close>

fun gt0 :: "jsnum \<Rightarrow> bool" where
  "gt0 (Num k) = (0 < k)"
| "gt0 PosInf = True"

fun le0 :: "jsnum \<Rightarrow> bool" where
  "le0 (Num k) = (k \<le> 0)"
| "le0 PosInf = False"

fun decr :: "jsnum \<Rightarrow> jsnum" where
  "decr (Num k) = Num (k - 1)"
| "decr PosInf = PosInf"

text \<open>\<^verbatim>\<open>Timer.STOP\<close>, \<^verbatim>\<open>Timer.PLAY\<close>, \<^verbatim>\<open>Timer.PAUSE\<close>.\<close>

datatype tstate = STOP | PLAY | PAUSE

text \<open>The public operations; \<^verbatim>\<open>start()\<close> without an argument is \<open>Start None\<close>.\<close>

datatype op = Start "jsnum option" | Stop | Play | Pause | Toggle | SetDelay int | Once

text \<open>A callback that calls none of them, whatever count it finds.\<close>

definition no_calls :: "int \<Rightarrow> op list" where
  "no_calls c = []"

subsection \<open>The Timer object and the host\<close>

record timer =
  t_delay :: int
  t_callback :: "int \<Rightarrow> op list"
  t_maxCount :: jsnum
  t_count :: int
  t_pausedTime :: int
  t_currentTime :: int
  t_lastTime :: int
  t_interval :: "nat option"
  t_state :: tstate

datatype handler = Timeout | Interval

record task =
  runs :: handler
  task_delay :: int
  due :: int

record host =
  clock :: int
  next_id :: nat
  pending :: "(nat \<times> task) list"

record world =
  self :: timer
  env :: host
  cb_log :: "int list"

text \<open>\<^verbatim>\<open>(new Date()).getTime()\<close>\<close>

definition Date_getTime :: "world \<Rightarrow> int" where
  "Date_getTime w = clock (env w)"

text \<open>
  \<^verbatim>\<open>setTimeout(f, d)\<close> and \<^verbatim>\<open>setInterval(f, d)\<close>: a fresh positive id is returned and the
  task is due \<open>d\<close> ms from now (at once when \<open>d\<close> is not positive).
\<close>

definition schedule :: "handler \<Rightarrow> int \<Rightarrow> world \<Rightarrow> nat \<times> world" where
  "schedule k d w =
     (let h = env w; i = next_id h
      in (i, w\<lparr>env := h\<lparr>next_id := Suc i,
                        pending := pending h @
                          [(i, \<lparr>runs = k, task_delay = d, due = clock h + max 0 d\<rparr>)]\<rparr>\<rparr>))"

definition setTimeout :: "int \<Rightarrow> world \<Rightarrow> nat \<times> world" where
  "setTimeout d w = schedule Timeout d w"

definition setInterval :: "int \<Rightarrow> world \<Rightarrow> nat \<times> world" where
  "setInterval d w = schedule Interval d w"

text \<open>
  \<^verbatim>\<open>clearTimeout(id)\<close> and \<^verbatim>\<open>clearInterval(id)\<close>: timeouts and intervals share one table
  of ids, so either call cancels either kind; \<^verbatim>\<open>null\<close> and ids that are not pending
  are ignored.
\<close>

definition unschedule :: "nat \<Rightarrow> world \<Rightarrow> world" where
  "unschedule i w = w\<lparr>env := (env w)\<lparr>pending := filter (\<lambda>p. fst p \<noteq> i) (pending (env w))\<rparr>\<rparr>"

definition clearTimeout :: "nat option \<Rightarrow> world \<Rightarrow> world" where
  "clearTimeout x w = (case x of None \<Rightarrow> w | Some i \<Rightarrow> unschedule i w)"

definition clearInterval :: "nat option \<Rightarrow> world \<Rightarrow> world" where
  "clearInterval x w = (case x of None \<Rightarrow> w | Some i \<Rightarrow> unschedule i w)"

subsection \<open>Constructor and getters\<close>

text \<open>\<^verbatim>\<open>new Timer(delay, callback)\<close> in a given host.\<close>

definition Timer :: "int \<Rightarrow> (int \<Rightarrow> op list) \<Rightarrow> host \<Rightarrow> world" where
  "Timer delay callback h =
     \<lparr>self = \<lparr>t_delay = delay, t_callback = callback, t_maxCount = PosInf, t_count = 0,
              t_pausedTime = 0, t_currentTime = clock h, t_lastTime = clock h,
              t_interval = None, t_state = STOP\<rparr>,
      env = h, cb_log = []\<rparr>"

text \<open>A host in which nothing has been scheduled yet, at clock reading \<open>t0\<close>.\<close>

definition host0 :: "int \<Rightarrow> host" where
  "host0 t0 = \<lparr>clock = t0, next_id = 1, pending = []\<rparr>"

definition getCount :: "world \<Rightarrow> int" where
  "getCount w = t_count (self w)"

definition getDelay :: "world \<Rightarrow> int" where
  "getDelay w = t_delay (self w)"

definition getState :: "world \<Rightarrow> tstate" where
  "getState w = t_state (self w)"

definition isPaused :: "world \<Rightarrow> bool" where
  "isPaused w = (getState w = PAUSE)"

definition isRunning :: "world \<Rightarrow> bool" where
  "isRunning w = (getState w = PLAY)"

definition isStopped :: "world \<Rightarrow> bool" where
  "isStopped w = (getState w = STOP)"

definition getCurrentTime :: "world \<Rightarrow> int" where
  "getCurrentTime w =
     (if isRunning w then Date_getTime w - t_pausedTime (self w) else t_currentTime (self w))"

definition getElapsedTime :: "world \<Rightarrow> int" where
  "getElapsedTime w = getCurrentTime w - t_lastTime (self w)"

text \<open>
  \<^verbatim>\<open>Math.ceil((t + 1) / this._delay) * this._delay - t\<close> in exact arithmetic: the quotient
  is a fraction and \<^verbatim>\<open>Math.ceil\<close> rounds it up to an integer. This is what the source
  computes as long as the elapsed time is not negative and elapsed time plus delay stays
  below \<open>2 ^ 53\<close>; see \<open>getRemainingTime64\<close> below for the source's own arithmetic.
\<close>

definition getRemainingTime :: "world \<Rightarrow> int" where
  "getRemainingTime w =
     (let t = getElapsedTime w
      in if t_delay (self w) > 0
         then \<lceil>(rat_of_int (t + 1)) / rat_of_int (t_delay (self w))\<rceil> * t_delay (self w) - t
         else 0)"

subsection \<open>The remaining time in binary64\<close>

text \<open>
  A JavaScript number is a binary64 value: a significand of 53 bits and a power of two.
  Every arithmetic operation returns the exact result rounded to the nearest such value,
  a tie going to the value with the even significand. \<open>round64\<close> is that rounding on the
  rationals. The exponent is not bounded: overflow to infinity and subnormal numbers
  (magnitudes from \<open>2 ^ 1024\<close> on, or below \<open>2 ^ - 1022\<close>) are outside the model.

  \<open>round_even y\<close> is the integer nearest to \<open>y\<close>, the even one of the two when \<open>y\<close> lies half
  way. \<open>expo x\<close> is the exponent \<open>e\<close> of a positive \<open>x\<close>, with \<open>2 ^ e \<le> x < 2 ^ (e + 1)\<close>, so
  that the binary64 values around \<open>x\<close> are the multiples of \<open>2 ^ (e - 52)\<close>.
\<close>

definition round_even :: "rat \<Rightarrow> int" where
  "round_even y =
     (let f = \<lfloor>y\<rfloor>; r = y - of_int f
      in if r < 1 / 2 then f else if 1 / 2 < r then f + 1 else if even f then f else f + 1)"

definition expo :: "rat \<Rightarrow> int" where
  "expo x = (if 1 \<le> x then bitlen \<lfloor>x\<rfloor> - 1 else - bitlen (\<lceil>1 / x\<rceil> - 1))"

definition round64 :: "rat \<Rightarrow> rat" where
  "round64 x =
     (if x = 0 then 0
      else (let u = 2 powi (expo \<bar>x\<bar> - 52) in of_int (round_even (x / u)) * u))"

text \<open>\<^verbatim>\<open>x + y\<close>, \<^verbatim>\<open>x - y\<close>, \<^verbatim>\<open>x * y\<close> and \<^verbatim>\<open>x / y\<close> on binary64 values.\<close>

definition fadd :: "rat \<Rightarrow> rat \<Rightarrow> rat" where "fadd x y = round64 (x + y)"

definition fsub :: "rat \<Rightarrow> rat \<Rightarrow> rat" where "fsub x y = round64 (x - y)"

definition fmul :: "rat \<Rightarrow> rat \<Rightarrow> rat" where "fmul x y = round64 (x * y)"

definition fdiv :: "rat \<Rightarrow> rat \<Rightarrow> rat" where "fdiv x y = round64 (x / y)"

text \<open>
  \<^verbatim>\<open>getRemainingTime\<close> with the arithmetic of the source: \<^verbatim>\<open>t + 1\<close>, the division, the
  multiplication and the subtraction each round their result; \<^verbatim>\<open>Math.ceil\<close> of a binary64
  value is exact. It starts from the integer that \<open>getElapsedTime\<close> gives and from the
  integer delay, both taken to be binary64 values.
\<close>

definition getRemainingTime64 :: "world \<Rightarrow> rat" where
  "getRemainingTime64 w =
     (let t = rat_of_int (getElapsedTime w)
      in if t_delay (self w) > 0
         then fsub (fmul (of_int \<lceil>fdiv (fadd t 1) (of_int (t_delay (self w)))\<rceil>)
                         (of_int (t_delay (self w)))) t
         else 0)"

subsection \<open>The state-changing methods\<close>

definition stop :: "world \<Rightarrow> world" where
  "stop w =
     (let w1 = clearTimeout (t_interval (self w)) w;
          w2 = clearInterval (t_interval (self w1)) w1;
          w3 = w2\<lparr>self := (self w2)\<lparr>t_count := 0\<rparr>\<rparr>;
          w4 = w3\<lparr>self := (self w3)\<lparr>t_pausedTime := 0\<rparr>\<rparr>;
          w5 = w4\<lparr>self := (self w4)\<lparr>t_currentTime := Date_getTime w4\<rparr>\<rparr>;
          w6 = w5\<lparr>self := (self w5)\<lparr>t_lastTime := t_currentTime (self w5)\<rparr>\<rparr>
      in w6\<lparr>self := (self w6)\<lparr>t_state := STOP\<rparr>\<rparr>)"

definition pause :: "world \<Rightarrow> world" where
  "pause w =
     (let w1 = clearTimeout (t_interval (self w)) w;
          w2 = clearInterval (t_interval (self w1)) w1;
          w3 = w2\<lparr>self := (self w2)\<lparr>t_currentTime := getCurrentTime w2\<rparr>\<rparr>
      in w3\<lparr>self := (self w3)\<lparr>t_state := PAUSE\<rparr>\<rparr>)"

text \<open>
  \<^verbatim>\<open>play\<close> up to the point where it returns; the closure it passes to \<^verbatim>\<open>setTimeout\<close> is
  \<open>timeout_handler\<close> below and runs only when the host fires the task.
\<close>

definition play :: "world \<Rightarrow> world" where
  "play w =
     (if gt0 (t_maxCount (self w)) then
        (let w1 = pause w;
             (i, w2) = setTimeout (getRemainingTime w1) w1;
             w3 = w2\<lparr>self := (self w2)\<lparr>t_interval := Some i\<rparr>\<rparr>;
             w4 = w3\<lparr>self := (self w3)\<lparr>t_pausedTime := Date_getTime w3 - t_currentTime (self w3)\<rparr>\<rparr>
         in w4\<lparr>self := (self w4)\<lparr>t_state := PLAY\<rparr>\<rparr>)
      else stop w)"

definition start :: "jsnum option \<Rightarrow> world \<Rightarrow> world" where
  "start n w =
     (let w1 = w\<lparr>self := (self w)\<lparr>t_maxCount := (case n of None \<Rightarrow> PosInf | Some k \<Rightarrow> k)\<rparr>\<rparr>
      in play (stop w1))"

definition toggle :: "world \<Rightarrow> world" where
  "toggle w = (if isRunning w then pause w else play w)"

definition setDelay :: "int \<Rightarrow> world \<Rightarrow> world" where
  "setDelay delay w =
     (let w1 = w\<lparr>self := (self w)\<lparr>t_delay := delay\<rparr>\<rparr>
      in if isRunning w1 then play w1 else w1)"

definition once :: "world \<Rightarrow> world" where
  "once w = start (Some (Num 1)) w"

subsection \<open>The callback and the two handlers\<close>

fun exec_op :: "op \<Rightarrow> world \<Rightarrow> world" where
  "exec_op (Start n) w = start n w"
| "exec_op Stop w = stop w"
| "exec_op Play w = play w"
| "exec_op Pause w = pause w"
| "exec_op Toggle w = toggle w"
| "exec_op (SetDelay d) w = setDelay d w"
| "exec_op Once w = once w"

text \<open>\<^verbatim>\<open>self._callback.apply(self)\<close>\<close>

definition callback_apply :: "world \<Rightarrow> world" where
  "callback_apply w =
     foldl (\<lambda>v c. exec_op c v) (w\<lparr>cb_log := cb_log w @ [getCount w]\<rparr>)
       (t_callback (self w) (getCount w))"

text \<open>The closure given to \<^verbatim>\<open>setTimeout\<close> in \<^verbatim>\<open>play\<close>.\<close>

definition timeout_handler :: "world \<Rightarrow> world" where
  "timeout_handler w =
     (let w1 = w\<lparr>self := (self w)\<lparr>t_lastTime := getCurrentTime w\<rparr>\<rparr>;
          w2 = w1\<lparr>self := (self w1)\<lparr>t_count := t_count (self w1) + 1\<rparr>\<rparr>;
          w3 = callback_apply w2
      in if isRunning w3 then
           (let w4 = w3\<lparr>self := (self w3)\<lparr>t_maxCount := decr (t_maxCount (self w3))\<rparr>\<rparr>
            in if gt0 (t_maxCount (self w4)) then
                 (let (i, w5) = setInterval (t_delay (self w4)) w4
                  in w5\<lparr>self := (self w5)\<lparr>t_interval := Some i\<rparr>\<rparr>)
               else stop w4)
         else w3)"

text \<open>The closure given to \<^verbatim>\<open>setInterval\<close> inside the first handler.\<close>

definition interval_handler :: "world \<Rightarrow> world" where
  "interval_handler w =
     (let w1 = w\<lparr>self := (self w)\<lparr>t_lastTime := getCurrentTime w\<rparr>\<rparr>;
          w2 = w1\<lparr>self := (self w1)\<lparr>t_count := t_count (self w1) + 1\<rparr>\<rparr>;
          w3 = callback_apply w2;
          w4 = w3\<lparr>self := (self w3)\<lparr>t_maxCount := decr (t_maxCount (self w3))\<rparr>\<rparr>
      in if le0 (t_maxCount (self w4)) then stop w4 else w4)"

subsection \<open>The host's event loop\<close>

text \<open>
  The host fires a pending task once the clock has reached its due time. A timeout
  leaves the table before its handler runs; an interval stays, due again one period later.
\<close>

definition rearm :: "nat \<Rightarrow> world \<Rightarrow> world" where
  "rearm i w =
     w\<lparr>env := (env w)\<lparr>pending :=
        map (\<lambda>p. if fst p = i then (i, (snd p)\<lparr>due := clock (env w) + max 0 (task_delay (snd p))\<rparr>) else p)
            (pending (env w))\<rparr>\<rparr>"

definition fire :: "nat \<Rightarrow> world \<Rightarrow> world option" where
  "fire i w =
     (case map_of (pending (env w)) i of
        None \<Rightarrow> None
      | Some t \<Rightarrow>
          if clock (env w) < due t then None
          else (case runs t of
                  Timeout \<Rightarrow> Some (timeout_handler (unschedule i w))
                | Interval \<Rightarrow> Some (interval_handler (rearm i w))))"

text \<open>What can happen to the timer: a call from outside, a firing, or time passing.\<close>

datatype event = Call op | Fire nat | Advance nat

fun step :: "event \<Rightarrow> world \<Rightarrow> world option" where
  "step (Call c) w = Some (exec_op c w)"
| "step (Fire i) w = fire i w"
| "step (Advance d) w = Some (w\<lparr>env := (env w)\<lparr>clock := clock (env w) + int d\<rparr>\<rparr>)"

fun run :: "event list \<Rightarrow> world \<Rightarrow> world option" where
  "run [] w = Some w"
| "run (e # es) w = (case step e w of None \<Rightarrow> None | Some w' \<Rightarrow> run es w')"

text \<open>
  Left alone, the host waits for the pending task that is due first (the one scheduled
  first among equals), advances the clock to its due time and fires it.
\<close>

fun earliest :: "(nat \<times> task) list \<Rightarrow> (nat \<times> task) option" where
  "earliest [] = None"
| "earliest (p # ps) =
     (case earliest ps of
        None \<Rightarrow> Some p
      | Some q \<Rightarrow> if due (snd q) < due (snd p) then Some q else Some p)"

definition fire_next :: "world \<Rightarrow> world option" where
  "fire_next w =
     (case earliest (pending (env w)) of
        None \<Rightarrow> None
      | Some p \<Rightarrow> fire (fst p) (w\<lparr>env := (env w)\<lparr>clock := max (clock (env w)) (due (snd p))\<rparr>\<rparr>))"

text \<open>
  \<open>fire_times k w\<close> lets the host fire \<open>k\<close> tasks in a row, with no call from outside
  in between; it is \<open>None\<close> when the host runs out of pending tasks before that.
\<close>

fun fire_times :: "nat \<Rightarrow> world \<Rightarrow> world option" where
  "fire_times 0 w = Some w"
| "fire_times (Suc k) w = (case fire_next w of None \<Rightarrow> None | Some w' \<Rightarrow> fire_times k w')"

subsection \<open>Predicates used in the statements\<close>


text \<open>
  Every pending task is the one the timer holds the handle of: no task has been lost
  track of. This holds of a new timer in a host where nothing is scheduled.
\<close>

definition owned :: "world \<Rightarrow> bool" where
  "owned w = list_all (\<lambda>p. t_interval (self w) = Some (fst p)) (pending (env w))"

text \<open>
  \<open>armed m c w\<close>: the timer is running with \<open>m\<close> firings left and \<open>c\<close> done, its callback
  leaves it alone, and exactly one task is pending, the one whose handle it holds.
  \<open>idle m w\<close>: it is stopped with nothing pending.
\<close>

definition armed :: "jsnum \<Rightarrow> int \<Rightarrow> world \<Rightarrow> bool" where
  "armed m c w \<longleftrightarrow>
     t_callback (self w) = no_calls \<and> t_state (self w) = PLAY \<and> t_maxCount (self w) = m \<and>
     t_count (self w) = c \<and>
     (case pending (env w) of [p] \<Rightarrow> t_interval (self w) = Some (fst p) | _ \<Rightarrow> False)"

definition idle :: "jsnum \<Rightarrow> world \<Rightarrow> bool" where
  "idle m w \<longleftrightarrow>
     t_callback (self w) = no_calls \<and> t_state (self w) = STOP \<and> t_maxCount (self w) = m \<and>
     t_count (self w) = 0 \<and> pending (env w) = []"

subsection \<open>Concrete worlds\<close>

text \<open>
  A timer with a delay of one second and a callback that leaves it alone, made at clock
  reading 0 in a host where nothing is scheduled; and the same timer after \<^verbatim>\<open>once()\<close>
  and its single firing at clock reading 1000.
\<close>

definition demo :: world where
  "demo = Timer 1000 no_calls (host0 0)"

definition demo_exhausted :: world where
  "demo_exhausted =
     \<lparr>self = \<lparr>t_delay = 1000, t_callback = no_calls, t_maxCount = Num 0, t_count = 0,
              t_pausedTime = 0, t_currentTime = 1000, t_lastTime = 1000,
              t_interval = Some 1, t_state = STOP\<rparr>,
      env = \<lparr>clock = 1000, next_id = 2, pending = []\<rparr>, cb_log = [1]\<rparr>"


text \<open>
  The timer of the README's first example (delay 0, a callback that calls
  \<^verbatim>\<open>setDelay(1000)\<close>) after \<^verbatim>\<open>start()\<close> and its first firing.
\<close>

definition demo_setDelay :: world where
  "demo_setDelay =
     \<lparr>self = \<lparr>t_delay = 1000, t_callback = (\<lambda>c. [SetDelay 1000]), t_maxCount = PosInf, t_count = 1,
              t_pausedTime = 0, t_currentTime = 0, t_lastTime = 0,
              t_interval = Some 3, t_state = PLAY\<rparr>,
      env = \<lparr>clock = 0, next_id = 4,
             pending = [(2, \<lparr>runs = Timeout, task_delay = 1000, due = 1000\<rparr>),
                        (3, \<lparr>runs = Interval, task_delay = 1000, due = 1000\<rparr>)]\<rparr>,
      cb_log = [1]\<rparr>"

text \<open>
  The one-second timer 400 ms after \<^verbatim>\<open>start()\<close>; and a timer of delay \<open>d\<close> that was started
  at clock reading 0 and has not fired when the clock reads \<open>t\<close>.
\<close>

definition demo_waiting :: world where
  "demo_waiting =
     \<lparr>self = \<lparr>t_delay = 1000, t_callback = no_calls, t_maxCount = PosInf, t_count = 0,
              t_pausedTime = 0, t_currentTime = 0, t_lastTime = 0,
              t_interval = Some 1, t_state = PLAY\<rparr>,
      env = \<lparr>clock = 400, next_id = 2,
             pending = [(1, \<lparr>runs = Timeout, task_delay = 1000, due = 1000\<rparr>)]\<rparr>,
      cb_log = []\<rparr>"

definition demo_far :: "int \<Rightarrow> int \<Rightarrow> world" where
  "demo_far d t =
     \<lparr>self = \<lparr>t_delay = d, t_callback = no_calls, t_maxCount = PosInf, t_count = 0,
              t_pausedTime = 0, t_currentTime = 0, t_lastTime = 0,
              t_interval = Some 1, t_state = PLAY\<rparr>,
      env = \<lparr>clock = t, next_id = 2,
             pending = [(1, \<lparr>runs = Timeout, task_delay = d, due = d\<rparr>)]\<rparr>,
      cb_log = []\<rparr>"



subsection \<open>Invariants\<close>




text \<open>A running timer holds a handle.\<close>

definition handle_ok :: "world \<Rightarrow> bool" where
  "handle_ok w \<longleftrightarrow> (t_state (self w) = PLAY \<longrightarrow> t_interval (self w) \<noteq> None)"

text \<open>The table of pending tasks after \<^verbatim>\<open>clearTimeout(this._interval)\<close>.\<close>

definition cleared :: "world \<Rightarrow> (nat \<times> task) list" where
  "cleared w =
     (case t_interval (self w) of
        None \<Rightarrow> pending (env w)
      | Some i \<Rightarrow> filter (\<lambda>p. fst p \<noteq> i) (pending (env w)))"

section \<open>Properties\<close>

subsection \<open>Unfolding and evaluation\<close>

lemma no_calls_apply [simp]: "no_calls c = []"
  by (simp add: no_calls_def)

lemmas host_defs = Date_getTime_def schedule_def setTimeout_def setInterval_def unschedule_def
  clearTimeout_def clearInterval_def rearm_def

lemmas getter_defs = getCount_def getDelay_def getState_def isPaused_def isRunning_def
  isStopped_def getCurrentTime_def getElapsedTime_def

lemmas method_defs = stop_def pause_def play_def start_def toggle_def setDelay_def once_def

lemma le0_iff: "le0 m = (\<not> gt0 m)"
  by (cases m) auto

lemma ceiling_quotient: "\<lceil>rat_of_int a / rat_of_int b\<rceil> = - (- a div b)"
  by (rule ceiling_divide_eq_div)

lemma getRemainingTime_div:
  "getRemainingTime w =
     (if 0 < t_delay (self w)
      then - (- (getElapsedTime w + 1) div t_delay (self w)) * t_delay (self w) - getElapsedTime w
      else 0)"
  unfolding getRemainingTime_def Let_def ceiling_quotient by simp

lemmas eval_defs = host_defs getter_defs method_defs Timer_def host0_def getRemainingTime_div
  timeout_handler_def interval_handler_def callback_apply_def fire_def fire_next_def Let_def

lemma run_once_demo: "run [Call Once, Advance 1000, Fire 1] demo = Some demo_exhausted"
  by (simp add: demo_def demo_exhausted_def eval_defs)


lemma run_setDelay_demo:
  "run [Call (Start None), Fire 1] (Timer 0 (\<lambda>c. [SetDelay 1000]) (host0 0)) = Some demo_setDelay"
  by (simp add: demo_setDelay_def eval_defs)


lemma run_waiting_demo: "run [Call (Start None), Advance 400] demo = Some demo_waiting"
  by (simp add: demo_def demo_waiting_def eval_defs)

lemma run_far_1:
  "run [Call (Start None), Advance 9007199254740992] (Timer 1 no_calls (host0 0))
     = Some (demo_far 1 9007199254740992)"
  by (simp add: demo_far_def eval_defs)

lemma run_far_7:
  "run [Call (Start None), Advance 9007199254740988] (Timer 7 no_calls (host0 0))
     = Some (demo_far 7 9007199254740988)"
  by (simp add: demo_far_def eval_defs)

subsection \<open>What each method does to each field\<close>

lemma stop_fields:
  "t_state (self (stop w)) = STOP" "t_callback (self (stop w)) = t_callback (self w)"
  "t_maxCount (self (stop w)) = t_maxCount (self w)" "t_interval (self (stop w)) = t_interval (self w)"
  "t_count (self (stop w)) = 0" "pending (env (stop w)) = cleared w"
  "cb_log (stop w) = cb_log w"
  by (simp_all add: stop_def host_defs Let_def cleared_def split: option.splits)

lemma pause_fields:
  "t_state (self (pause w)) = PAUSE" "t_callback (self (pause w)) = t_callback (self w)"
  "t_maxCount (self (pause w)) = t_maxCount (self w)" "t_interval (self (pause w)) = t_interval (self w)"
  "t_count (self (pause w)) = t_count (self w)" "pending (env (pause w)) = cleared w"
  "cb_log (pause w) = cb_log w" "next_id (env (pause w)) = next_id (env w)"
  by (simp_all add: pause_def host_defs Let_def cleared_def split: option.splits)

lemma play_fields:
  assumes "gt0 (t_maxCount (self w))"
  shows "t_state (self (play w)) = PLAY" "t_callback (self (play w)) = t_callback (self w)"
  "t_maxCount (self (play w)) = t_maxCount (self w)"
  "t_interval (self (play w)) = Some (next_id (env w))"
  "t_count (self (play w)) = t_count (self w)"
  "\<exists>t. pending (env (play w)) = cleared w @ [(next_id (env w), t)]"
  "cb_log (play w) = cb_log w"
  using assms
  by (simp_all add: play_def setTimeout_def schedule_def Let_def pause_fields split: prod.splits)

lemma play_exhausted: "\<not> gt0 (t_maxCount (self w)) \<Longrightarrow> play w = stop w"
  by (simp add: play_def)

lemma owned_cleared: "owned w \<Longrightarrow> cleared w = []"
  by (cases "pending (env w)")
    (auto simp: owned_def cleared_def list_all_iff filter_empty_conv split: option.splits)

lemma cleared_handle: "t_interval (self w) = Some i \<Longrightarrow> map_of (cleared w) i = None"
  by (auto simp: cleared_def map_of_eq_None_iff)

lemma getRemainingTime_pause: "getRemainingTime (pause w) = getRemainingTime w"
  by (simp add: getRemainingTime_div getter_defs pause_def host_defs Let_def split: option.splits)

lemma play_schedules:
  assumes "gt0 (t_maxCount (self w))"
  shows "pending (env (play w)) = cleared w @
           [(next_id (env w), \<lparr>runs = Timeout, task_delay = getRemainingTime w,
               due = clock (env w) + max 0 (getRemainingTime w)\<rparr>)]"
    and "clock (env (play w)) = clock (env w)"
proof -
  have "pending (env (play w)) = cleared w @
           [(next_id (env w), \<lparr>runs = Timeout, task_delay = getRemainingTime (pause w),
               due = clock (env (pause w)) + max 0 (getRemainingTime (pause w))\<rparr>)]"
    using assms
    by (simp add: play_def setTimeout_def schedule_def Let_def pause_fields split: prod.splits)
  moreover have c: "clock (env (pause w)) = clock (env w)"
    by (simp add: pause_def host_defs Let_def split: option.splits)
  ultimately show "pending (env (play w)) = cleared w @
           [(next_id (env w), \<lparr>runs = Timeout, task_delay = getRemainingTime w,
               due = clock (env w) + max 0 (getRemainingTime w)\<rparr>)]"
    by (simp add: getRemainingTime_pause)
  show "clock (env (play w)) = clock (env w)"
    using assms c
    by (simp add: play_def setTimeout_def schedule_def Let_def split: prod.splits)
qed

subsection \<open>Rounding up to the next multiple of the delay\<close>

lemma round_up_bounds:
  fixes t d :: int
  assumes "0 < d"
  shows "1 \<le> - (- (t + 1) div d) * d - t" and "- (- (t + 1) div d) * d - t \<le> d"
proof -
  define r where "r = (- (t + 1)) mod d"
  have r: "0 \<le> r" "r < d" using assms by (simp_all add: r_def)
  have "- (t + 1) = (- (t + 1)) div d * d + r"
    by (simp add: r_def)
  then have eq: "- (- (t + 1) div d) * d - t = 1 + r"
    by (simp add: algebra_simps)
  show "1 \<le> - (- (t + 1) div d) * d - t" using eq r by simp
  show "- (- (t + 1) div d) * d - t \<le> d" using eq r by simp
qed

lemma round_up_multiple:
  fixes t d :: int
  assumes "0 < d" "d dvd t"
  shows "- (- (t + 1) div d) * d - t = d"
proof -
  from assms obtain k where k: "t = d * k" by (auto simp: dvd_def)
  have "- (t + 1) = d * (- k - 1) + (d - 1)" by (simp add: k algebra_simps)
  then have "(- (t + 1)) div d = (d * (- k - 1) + (d - 1)) div d" by (simp only:)
  also have "\<dots> = (- k - 1) + (d - 1) div d"
    using assms(1) by (simp only: div_mult_self4 [of d "- k - 1" "d - 1"])
  also have "(d - 1) div d = 0"
    using assms(1) by (simp add: div_pos_pos_trivial)
  finally have q: "(- (t + 1)) div d = - k - 1" by simp
  show ?thesis unfolding q by (simp add: k algebra_simps)
qed

subsection \<open>Binary64 rounding\<close>

lemma round_even_int [simp]: "round_even (of_int n) = n"
  by (simp add: round_even_def)

lemma round_even_err: "\<bar>of_int (round_even y) - y\<bar> \<le> 1 / 2"
proof -
  define f where "f = \<lfloor>y\<rfloor>"
  define r where "r = y - of_int f"
  have r: "0 \<le> r" "r < 1" unfolding r_def f_def by linarith+
  have y: "y = of_int f + r" by (simp add: r_def)
  have re: "round_even y =
      (if r < 1 / 2 then f else if 1 / 2 < r then f + 1 else if even f then f else f + 1)"
    unfolding round_even_def Let_def r_def f_def by (rule refl)
  have lo: "rat_of_int (round_even y) - y = - r" if "round_even y = f"
    using that by (simp add: r_def)
  have hi: "rat_of_int (round_even y) - y = 1 - r" if "round_even y = f + 1"
    using that by (simp add: r_def)
  consider "r < 1 / 2" | "1 / 2 < r" | "r = 1 / 2" by linarith
  then show ?thesis
  proof cases
    case 1
    then have "round_even y = f" by (simp only: re if_True)
    from lo [OF this] show ?thesis using r 1 by simp
  next
    case 2
    then have "\<not> r < 1 / 2" by simp
    then have "round_even y = f + 1" using 2 by (simp only: re if_True if_False)
    from hi [OF this] show ?thesis using r 2 by simp
  next
    case 3
    then have "round_even y = f \<or> round_even y = f + 1"
      by (simp only: re) simp
    then show ?thesis
    proof
      assume "round_even y = f"
      from lo [OF this] show ?thesis using 3 by simp
    next
      assume "round_even y = f + 1"
      from hi [OF this] show ?thesis using 3 by simp
    qed
  qed
qed

lemma pow2_le_of_int: "(2::int) ^ k \<le> n \<Longrightarrow> (2::rat) ^ k \<le> of_int n"
  by (metis of_int_le_iff of_int_numeral of_int_power)

lemma of_int_less_pow2: "n < (2::int) ^ k \<Longrightarrow> rat_of_int n + 1 \<le> 2 ^ k"
proof -
  assume "n < 2 ^ k"
  then have "n + 1 \<le> 2 ^ k" by simp
  then have "rat_of_int (n + 1) \<le> of_int (2 ^ k)" by (simp only: of_int_le_iff)
  then show ?thesis by simp
qed

lemma expo_bounds:
  assumes "0 < x"
  shows "2 powi expo x \<le> x" and "x < 2 powi (expo x + 1)"
proof -
  have "2 powi expo x \<le> x \<and> x < 2 powi (expo x + 1)"
  proof (cases "1 \<le> x")
    case True
    define m where "m = \<lfloor>x\<rfloor>"
    have m: "0 < m" "of_int m \<le> x" "x < of_int m + 1"
      using True by (simp_all add: m_def) linarith+
    from bitlen_bounds [OF m(1)] have b: "2 ^ nat (bitlen m - 1) \<le> m" "m < 2 ^ nat (bitlen m)"
      by simp_all
    have ge: "1 \<le> bitlen m" using m(1) by (simp add: bitlen_alt_def)
    have e: "expo x = bitlen m - 1" using True by (simp add: expo_def m_def)
    have "(2::rat) powi (bitlen m - 1) = 2 ^ nat (bitlen m - 1)"
      using ge by (simp add: power_int_def)
    also have "\<dots> \<le> of_int m" using b(1) by (rule pow2_le_of_int)
    finally have l: "2 powi (bitlen m - 1) \<le> x" using m(2) by linarith
    have "x < 2 ^ nat (bitlen m)" using m(3) of_int_less_pow2 [OF b(2)] by linarith
    moreover have "(2::rat) powi (bitlen m - 1 + 1) = 2 ^ nat (bitlen m)"
      using ge by (simp add: power_int_def)
    ultimately show ?thesis using l e by simp
  next
    case False
    define y where "y = 1 / x"
    define n where "n = \<lceil>y\<rceil> - 1"
    have y: "1 < y" using False assms by (simp add: y_def)
    then have n: "0 < n" "of_int n < y" "y \<le> of_int n + 1"
      by (simp_all add: n_def) linarith+
    from bitlen_bounds [OF n(1)] have b: "2 ^ nat (bitlen n - 1) \<le> n" "n < 2 ^ nat (bitlen n)"
      by simp_all
    have ge: "1 \<le> bitlen n" using n(1) by (simp add: bitlen_alt_def)
    have e: "expo x = - bitlen n" using False by (simp add: expo_def n_def y_def)
    have u: "y \<le> 2 ^ nat (bitlen n)" using n(3) of_int_less_pow2 [OF b(2)] by linarith
    have l: "2 ^ nat (bitlen n - 1) < y" using n(2) pow2_le_of_int [OF b(1)] by linarith
    have x: "x = 1 / y" using assms by (simp add: y_def)
    have "(2::rat) powi (- bitlen n) = 1 / 2 ^ nat (bitlen n)"
      using ge by (simp add: power_int_def field_simps)
    also have "\<dots> \<le> 1 / y" using u y by (simp add: frac_le)
    finally have 1: "2 powi (- bitlen n) \<le> x" using x by simp
    have "(2::rat) powi (- bitlen n + 1) = 1 / 2 ^ nat (bitlen n - 1)"
      using ge by (simp add: power_int_def field_simps nat_diff_distrib)
    moreover have "1 / y < 1 / 2 ^ nat (bitlen n - 1)"
      using l by (simp add: frac_less2)
    ultimately have "x < 2 powi (- bitlen n + 1)" using x by simp
    then show ?thesis using 1 e by simp
  qed
  then show "2 powi expo x \<le> x" and "x < 2 powi (expo x + 1)" by simp_all
qed

lemma round64_pos:
  assumes "0 < x"
  shows "round64 x = of_int (round_even (x / 2 powi (expo x - 52))) * 2 powi (expo x - 52)"
  using assms by (simp add: round64_def Let_def)

lemma round64_err:
  assumes "0 < x"
  shows "\<bar>round64 x - x\<bar> \<le> x / 2 ^ 53"
proof -
  define u :: rat where "u = 2 powi (expo x - 52)"
  have u: "0 < u" by (simp add: u_def)
  have "round64 x - x = (of_int (round_even (x / u)) - x / u) * u"
    using u by (simp add: round64_pos [OF assms] u_def [symmetric] algebra_simps)
  then have "\<bar>round64 x - x\<bar> = \<bar>of_int (round_even (x / u)) - x / u\<bar> * u"
    using u by (simp add: abs_mult)
  also have "\<dots> \<le> (1 / 2) * u"
    using round_even_err [of "x / u"] u by (simp only: mult_right_mono less_imp_le)
  also have "(1 / 2) * u = 2 powi expo x / 2 ^ 53"
  proof -
    have "(2::rat) powi (expo x - 52) = 2 powi expo x / 2 powi 52"
      by (simp add: power_int_diff)
    then show ?thesis by (simp add: u_def)
  qed
  also have "\<dots> \<le> x / 2 ^ 53"
    using expo_bounds(1) [OF assms] by (simp add: divide_right_mono)
  finally show ?thesis .
qed

lemma round64_exact:
  assumes "0 < x" "x / 2 powi (expo x - 52) = of_int m"
  shows "round64 x = x"
proof -
  have "(2::rat) powi (expo x - 52) \<noteq> 0" by simp
  then have "x = of_int m * 2 powi (expo x - 52)"
    using assms(2) by (simp add: field_simps)
  then show ?thesis
    using round64_pos [OF assms(1)] assms(2) by simp
qed

lemma round64_int:
  assumes "0 \<le> n" "n \<le> 2 ^ 53"
  shows "round64 (of_int n) = of_int n"
proof (cases "n = 0")
  case True
  then show ?thesis by (simp add: round64_def)
next
  case False
  then have pos: "0 < rat_of_int n" using assms(1) by simp
  define e where "e = expo (of_int n)"
  have lo: "2 powi e \<le> rat_of_int n" and hi: "rat_of_int n < 2 powi (e + 1)"
    using expo_bounds [OF pos] by (simp_all add: e_def)
  have e0: "0 \<le> e"
  proof (rule ccontr)
    assume "\<not> 0 \<le> e"
    then have "e + 1 \<le> 0" by simp
    then have "(2::rat) powi (e + 1) \<le> 2 powi 0"
      by (intro power_int_increasing) simp_all
    then have "rat_of_int n < 1" using hi by simp
    then show False using False assms(1) by simp
  qed
  have "rat_of_int n \<le> 2 ^ 53"
    using assms(2) by (metis of_int_le_iff of_int_numeral of_int_power)
  then have "(2::rat) powi e \<le> 2 powi 53" using lo by simp
  have e53: "e \<le> 53"
  proof (rule ccontr)
    assume "\<not> e \<le> 53"
    then have "54 \<le> e" by simp
    then have "(2::rat) powi 54 \<le> 2 powi e"
      by (intro power_int_increasing) simp_all
    then show False using \<open>(2::rat) powi e \<le> 2 powi 53\<close> by simp
  qed
  show ?thesis
  proof (cases "e \<le> 52")
    case True
    have "(2::rat) powi (e - 52) = 1 / 2 ^ nat (52 - e)"
      using True by (cases "e = 52") (simp_all add: power_int_def field_simps)
    then have "rat_of_int n / 2 powi (e - 52) = of_int (n * 2 ^ nat (52 - e))"
      by simp
    then show ?thesis using round64_exact [OF pos] by (simp only: e_def)
  next
    case False
    then have e: "e = 53" using e53 by simp
    then have "2 ^ 53 \<le> rat_of_int n" using lo by simp
    then have "(2::int) ^ 53 \<le> n"
      by (metis of_int_le_iff of_int_numeral of_int_power)
    then have n: "n = 2 ^ 53" using assms(2) by simp
    have "rat_of_int n / 2 powi (e - 52) = of_int (2 ^ 52)"
      by (simp add: e n)
    then show ?thesis using round64_exact [OF pos] by (simp only: e_def)
  qed
qed

lemma ceiling_round64_quotient:
  assumes "0 < a" "a < 2 ^ 53" "0 < b"
  shows "\<lceil>round64 (of_int a / of_int b)\<rceil> = \<lceil>rat_of_int a / of_int b\<rceil>"
proof (cases "b dvd a")
  case True
  then obtain c where c: "a = b * c" by (auto simp: dvd_def)
  have c0: "0 \<le> c" using assms(1,3) c by (simp add: zero_less_mult_iff)
  have "c \<le> a" using c assms(3) c0 by (simp add: mult_le_cancel_right1) 
  then have "c \<le> 2 ^ 53" using assms(2) by simp
  moreover have "rat_of_int a / of_int b = of_int c" using c assms(3) by simp
  ultimately show ?thesis using round64_int [OF c0] by simp
next
  case False
  define x where "x = rat_of_int a / of_int b"
  define k where "k = \<lceil>x\<rceil>"
  have x0: "0 < x" using assms by (simp add: x_def)
  have bpos: "0 < rat_of_int b" using assms(3) by simp
  have notint: "x \<noteq> of_int j" for j
  proof
    assume "x = of_int j"
    then have "rat_of_int a = of_int (j * b)" using bpos by (simp add: x_def field_simps)
    then have "a = j * b" by (simp only: of_int_eq_iff)
    then show False using False by simp
  qed
  have k: "of_int k - 1 < x" "x < of_int k"
    using notint [of k] by (simp_all add: k_def less_le) linarith
  have "rat_of_int ((k - 1) * b) < of_int a"
    using k(1) bpos by (simp add: x_def field_simps)
  then have "(k - 1) * b < a" by (simp only: of_int_less_iff)
  then have "(k - 1) * b + 1 \<le> a" by simp
  then have "rat_of_int ((k - 1) * b + 1) \<le> of_int a" by (simp only: of_int_le_iff)
  then have "rat_of_int ((k - 1) * b + 1) / of_int b \<le> x"
    unfolding x_def using bpos by (intro divide_right_mono) simp_all
  moreover have "rat_of_int ((k - 1) * b + 1) / of_int b = of_int k - 1 + 1 / of_int b"
    using bpos by (simp add: field_simps)
  ultimately have d1: "of_int k - 1 + 1 / of_int b \<le> x" by simp
  have "rat_of_int a < of_int (k * b)"
    using k(2) bpos by (simp add: x_def field_simps)
  then have "a < k * b" by (simp only: of_int_less_iff)
  then have "a + 1 \<le> k * b" by simp
  then have "rat_of_int (a + 1) \<le> of_int (k * b)" by (simp only: of_int_le_iff)
  then have "rat_of_int (a + 1) / of_int b \<le> of_int (k * b) / of_int b"
    using bpos by (intro divide_right_mono) simp_all
  moreover have "rat_of_int (a + 1) / of_int b = x + 1 / of_int b"
    using bpos by (simp add: x_def field_simps)
  moreover have "rat_of_int (k * b) / of_int b = of_int k"
    using bpos by simp
  ultimately have d2: "x + 1 / of_int b \<le> of_int k" by simp
  have "rat_of_int a < 2 ^ 53"
    using assms(2) by (metis of_int_less_iff of_int_numeral of_int_power)
  then have "x / 2 ^ 53 < 1 / of_int b"
    using bpos by (simp add: x_def field_simps)
  then have err: "\<bar>round64 x - x\<bar> < 1 / of_int b"
    using round64_err [OF x0] by linarith
  have "of_int k - 1 < round64 x" "round64 x \<le> of_int k"
    using err d1 d2 by linarith+
  then have "\<lceil>round64 x\<rceil> = k" by (rule ceiling_unique)
  then show ?thesis by (simp add: k_def x_def)
qed

lemma getRemainingTime64_exact:
  assumes "0 < t_delay (self w)" "0 \<le> getElapsedTime w"
    "getElapsedTime w + t_delay (self w) < 2 ^ 53"
  shows "getRemainingTime64 w = of_int (getRemainingTime w)"
proof -
  define t where "t = getElapsedTime w"
  define d where "d = t_delay (self w)"
  define k where "k = - (- (t + 1) div d)"
  have h: "0 < d" "0 \<le> t" "t + d < 2 ^ 53"
    using assms by (simp_all add: t_def d_def)
  have b: "1 \<le> k * d - t" "k * d - t \<le> d"
    using round_up_bounds [OF h(1), of t] by (simp_all add: k_def)
  have 1: "fadd (of_int t) 1 = of_int (t + 1)"
    using round64_int [of "t + 1"] h by (simp add: fadd_def)
  have "\<lceil>fdiv (of_int (t + 1)) (of_int d)\<rceil> = \<lceil>rat_of_int (t + 1) / of_int d\<rceil>"
    unfolding fdiv_def using h by (intro ceiling_round64_quotient) simp_all
  then have 2: "\<lceil>fdiv (of_int (t + 1)) (of_int d)\<rceil> = k"
    by (simp only: ceiling_quotient k_def)
  have 3: "fmul (of_int k) (of_int d) = of_int (k * d)"
    using round64_int [of "k * d"] h b by (simp add: fmul_def)
  have 4: "fsub (of_int (k * d)) (of_int t) = of_int (k * d - t)"
    using round64_int [of "k * d - t"] h b by (simp add: fsub_def)
  have 1: "fadd (rat_of_int t) 1 = rat_of_int t + 1" using 1 by simp
  have 2: "\<lceil>fdiv (rat_of_int t + 1) (rat_of_int d)\<rceil> = k" using 2 by simp
  have 3: "fmul (rat_of_int k) (rat_of_int d) = rat_of_int k * rat_of_int d" using 3 by simp
  have 4: "fsub (rat_of_int k * rat_of_int d) (rat_of_int t) = rat_of_int k * rat_of_int d - rat_of_int t"
    using 4 by simp
  have "getRemainingTime64 w = of_int (k * d - t)"
    using h(1) by (simp add: getRemainingTime64_def Let_def t_def [symmetric] d_def [symmetric] 1 2 3 4)
  moreover have "getRemainingTime w = k * d - t"
    using h(1) by (simp add: getRemainingTime_div t_def d_def k_def)
  ultimately show ?thesis by simp
qed

lemma far_1: "getRemainingTime64 (demo_far 1 9007199254740992) = 0"
  by (simp add: getRemainingTime64_def demo_far_def getter_defs Date_getTime_def Let_def) code_simp

lemma far_7: "getRemainingTime64 (demo_far 7 9007199254740988) = 8"
  by (simp add: getRemainingTime64_def demo_far_def getter_defs Date_getTime_def Let_def) code_simp

subsection \<open>One firing of a timer whose callback leaves it alone\<close>

lemma armedE:
  assumes "armed m c w"
  obtains i t where "pending (env w) = [(i, t)]" "t_interval (self w) = Some i"
    "t_callback (self w) = no_calls" "t_state (self w) = PLAY" "t_maxCount (self w) = m"
    "t_count (self w) = c"
  using assms by (auto simp: armed_def split: list.splits)

lemma gt0_decr: "gt0 (decr m) \<Longrightarrow> gt0 m"
  by (cases m) auto




lemma decr_funpow_Num: "(decr ^^ k) (Num a) = Num (a - int k)"
  by (induction k) auto

lemma decr_funpow_PosInf: "(decr ^^ k) PosInf = PosInf"
  by (induction k) auto



lemma fire_next_armed:
  assumes "armed m c w" "gt0 m"
  shows "\<exists>w'. fire_next w = Some w' \<and> cb_log w' = cb_log w @ [c + 1] \<and>
           (if gt0 (decr m) then armed (decr m) (c + 1) w' else idle (decr m) w')"
proof -
  from assms(1) obtain i t where p: "pending (env w) = [(i, t)]" "t_interval (self w) = Some i"
    "t_callback (self w) = no_calls" "t_state (self w) = PLAY" "t_maxCount (self w) = m"
    "t_count (self w) = c"
    by (rule armedE)
  show ?thesis
  proof (cases "runs t")
    case Timeout
    then show ?thesis using p
      by (simp add: fire_next_def fire_def timeout_handler_def callback_apply_def host_defs
          getter_defs stop_def armed_def idle_def Let_def)
  next
    case Interval
    then show ?thesis using p
      by (simp add: fire_next_def fire_def interval_handler_def callback_apply_def host_defs
          getter_defs stop_def armed_def idle_def Let_def le0_iff)
  qed
qed

lemma play_armed:
  assumes "t_callback (self w) = no_calls" "owned w" "gt0 (t_maxCount (self w))"
  shows "armed (t_maxCount (self w)) (t_count (self w)) (play w)"
proof -
  from play_fields(6) [OF assms(3)] obtain t where
    "pending (env (play w)) = cleared w @ [(next_id (env w), t)]" by blast
  then have "pending (env (play w)) = [(next_id (env w), t)]"
    using owned_cleared [OF assms(2)] by simp
  then show ?thesis using assms
    by (simp add: armed_def play_fields)
qed

lemma start_armed:
  assumes "t_callback (self w) = no_calls" "owned w" "gt0 n"
  shows "armed n 0 (start (Some n) w) \<and> cb_log (start (Some n) w) = cb_log w"
proof -
  have "filter (\<lambda>p. fst p \<noteq> i) (pending (env w)) = []" if "t_interval (self w) = Some i" for i
    using assms(2) that by (auto simp: owned_def list_all_iff filter_empty_conv)
  moreover have "pending (env w) = []" if "t_interval (self w) = None"
    using assms(2) that by (cases "pending (env w)") (auto simp: owned_def)
  ultimately show ?thesis using assms(1,3)
    by (cases "t_interval (self w)")
      (simp_all add: method_defs host_defs getter_defs armed_def Let_def)
qed

subsection \<open>Several firings in a row\<close>

lemma counts_upt: "(c + 1) # map (\<lambda>i. c + 1 + int i) [1..<Suc k] = map (\<lambda>i. c + int i) [1..<Suc (Suc k)]"
proof -
  have "[1..<Suc (Suc k)] = 1 # map Suc [1..<Suc k]"
    by (simp only: map_Suc_upt) (simp add: upt_conv_Cons)
  then show ?thesis by (simp add: comp_def algebra_simps)
qed

lemma fire_times_armed:
  "armed m c w \<Longrightarrow> gt0 ((decr ^^ k) m) \<Longrightarrow>
     \<exists>v. fire_times k w = Some v \<and> armed ((decr ^^ k) m) (c + int k) v \<and>
         cb_log v = cb_log w @ map (\<lambda>i. c + int i) [1..<Suc k]"
proof (induction k arbitrary: m c w)
  case 0
  then show ?case by simp
next
  case (Suc k)
  have pos: "gt0 ((decr ^^ k) (decr m))"
    using Suc.prems(2) by (simp add: funpow_swap1)
  then have "gt0 (decr m)"
    by (induction k) (auto dest: gt0_decr)
  then have "gt0 m" by (rule gt0_decr)
  with Suc.prems(1) \<open>gt0 (decr m)\<close> obtain w1 where
    w1: "fire_next w = Some w1" "cb_log w1 = cb_log w @ [c + 1]" "armed (decr m) (c + 1) w1"
    using fire_next_armed [of m c w] by auto
  from Suc.IH [OF w1(3) pos] obtain v where
    v: "fire_times k w1 = Some v" "armed ((decr ^^ k) (decr m)) (c + 1 + int k) v"
       "cb_log v = cb_log w1 @ map (\<lambda>i. c + 1 + int i) [1..<Suc k]"
    by auto
  have "cb_log v = cb_log w @ map (\<lambda>i. c + int i) [1..<Suc (Suc k)]"
    using v(3) w1(2) counts_upt [of c k] by simp
  then show ?case using w1(1) v(1,2)
    by (simp add: funpow_swap1 algebra_simps)
qed

lemma fire_times_add:
  "fire_times (a + b) w = (case fire_times a w of None \<Rightarrow> None | Some v \<Rightarrow> fire_times b v)"
  by (induction a arbitrary: w) (auto split: option.splits)

lemma fire_times_last:
  assumes "armed (Num (1 + int k)) c w"
  shows "\<exists>v w'. fire_times k w = Some v \<and> armed (Num 1) (c + int k) v \<and>
           fire_next v = Some w' \<and> fire_times (Suc k) w = Some w' \<and> idle (Num 0) w' \<and>
           cb_log w' = cb_log w @ map (\<lambda>i. c + int i) [1..<Suc (Suc k)]"
proof -
  from fire_times_armed [OF assms, of k] obtain v where
    v: "fire_times k w = Some v" "armed (Num 1) (c + int k) v"
       "cb_log v = cb_log w @ map (\<lambda>i. c + int i) [1..<Suc k]"
    by (auto simp: decr_funpow_Num)
  from fire_next_armed [OF v(2)] obtain w' where
    w': "fire_next v = Some w'" "cb_log w' = cb_log v @ [c + int k + 1]" "idle (Num 0) w'"
    by auto
  have "fire_times (Suc k) w = Some w'"
    using fire_times_add [of k 1 w] v(1) w'(1) by simp
  moreover have "cb_log w' = cb_log w @ map (\<lambda>i. c + int i) [1..<Suc (Suc k)]"
    using v(3) w'(2) by simp
  ultimately show ?thesis using v w' by simp
qed

subsection \<open>The invariant of a timer left alone by its callback\<close>

















subsection \<open>A running timer holds a handle, whatever the callback does\<close>

lemma handle_ok_stop: "handle_ok (stop w)"
  by (simp add: handle_ok_def stop_fields)

lemma handle_ok_pause: "handle_ok (pause w)"
  by (simp add: handle_ok_def pause_fields)

lemma handle_ok_play: "handle_ok (play w)"
  by (cases "gt0 (t_maxCount (self w))")
    (simp_all add: handle_ok_def play_fields play_exhausted stop_fields)

lemma handle_ok_setDelay: "handle_ok w \<Longrightarrow> handle_ok (setDelay d w)"
  by (simp add: setDelay_def Let_def handle_ok_play) (simp add: handle_ok_def)

lemma handle_ok_exec_op: "handle_ok w \<Longrightarrow> handle_ok (exec_op c w)"
  by (cases c)
    (simp_all add: handle_ok_stop handle_ok_pause handle_ok_play handle_ok_setDelay
      start_def once_def toggle_def Let_def)

lemma handle_ok_script: "handle_ok w \<Longrightarrow> handle_ok (foldl (\<lambda>v c. exec_op c v) w cs)"
  by (induction cs arbitrary: w) (simp_all add: handle_ok_exec_op)

lemma handle_ok_callback: "handle_ok w \<Longrightarrow> handle_ok (callback_apply w)"
  unfolding callback_apply_def
  by (rule handle_ok_script) (simp add: handle_ok_def)

lemma handle_ok_timeout:
  assumes "handle_ok w"
  shows "handle_ok (timeout_handler w)"
proof -
  define w2 where "w2 = w\<lparr>self := (self w)\<lparr>t_lastTime := getCurrentTime w,
    t_count := t_count (self w) + 1\<rparr>\<rparr>"
  have "handle_ok w2" using assms by (simp add: handle_ok_def w2_def)
  then have c: "handle_ok (callback_apply w2)" by (rule handle_ok_callback)
  have "timeout_handler w =
      (if isRunning (callback_apply w2) then
         (let w4 = (callback_apply w2)\<lparr>self := (self (callback_apply w2))
                      \<lparr>t_maxCount := decr (t_maxCount (self (callback_apply w2)))\<rparr>\<rparr>
          in if gt0 (t_maxCount (self w4)) then
               (let (i, w5) = setInterval (t_delay (self w4)) w4
                in w5\<lparr>self := (self w5)\<lparr>t_interval := Some i\<rparr>\<rparr>)
             else stop w4)
       else callback_apply w2)"
    by (simp add: timeout_handler_def Let_def w2_def)
  then show ?thesis using c
    by (simp add: Let_def handle_ok_stop setInterval_def schedule_def split: prod.splits)
      (simp add: handle_ok_def)
qed

lemma handle_ok_interval:
  assumes "handle_ok w"
  shows "handle_ok (interval_handler w)"
proof -
  define w2 where "w2 = w\<lparr>self := (self w)\<lparr>t_lastTime := getCurrentTime w,
    t_count := t_count (self w) + 1\<rparr>\<rparr>"
  have "handle_ok w2" using assms by (simp add: handle_ok_def w2_def)
  then have c: "handle_ok (callback_apply w2)" by (rule handle_ok_callback)
  have "interval_handler w =
      (let w4 = (callback_apply w2)\<lparr>self := (self (callback_apply w2))
                      \<lparr>t_maxCount := decr (t_maxCount (self (callback_apply w2)))\<rparr>\<rparr>
       in if le0 (t_maxCount (self w4)) then stop w4 else w4)"
    by (simp add: interval_handler_def Let_def w2_def)
  then show ?thesis using c
    by (simp add: Let_def handle_ok_stop) (simp add: handle_ok_def)
qed

lemma handle_ok_fire: "handle_ok w \<Longrightarrow> fire i w = Some w' \<Longrightarrow> handle_ok w'"
proof -
  assume h: "handle_ok w" and f: "fire i w = Some w'"
  have "handle_ok (unschedule i w)" "handle_ok (rearm i w)"
    using h by (simp_all add: handle_ok_def unschedule_def rearm_def)
  then show ?thesis using f
    by (auto simp: fire_def handle_ok_timeout handle_ok_interval
        split: option.splits if_splits handler.splits)
qed

lemma handle_ok_step: "handle_ok w \<Longrightarrow> step e w = Some w' \<Longrightarrow> handle_ok w'"
  by (cases e) (auto simp: handle_ok_exec_op handle_ok_fire, simp add: handle_ok_def)

lemma handle_ok_run: "handle_ok w \<Longrightarrow> run evs w = Some w' \<Longrightarrow> handle_ok w'"
proof (induction evs arbitrary: w)
  case Nil
  then show ?case by simp
next
  case (Cons e es)
  from Cons.prems(2) obtain w1 where s: "step e w = Some w1" and r: "run es w1 = Some w'"
    by (auto split: option.splits)
  from Cons.prems(1) s have "handle_ok w1" by (rule handle_ok_step)
  with Cons.IH r show ?case by simp
qed

section \<open>The claims\<close>

subsection \<open>C1: count exhaustion\<close>

text \<open>
  Claim C1, as amended. For every \<open>n > 0\<close>, for a timer whose callback leaves it alone and
  that has lost track of no task, after \<^verbatim>\<open>start(n)\<close> the host fires exactly \<open>n\<close> times: the
  timer is still running after \<open>n - 1\<close> firings, the \<open>k\<close>-th invocation of the callback sees
  \<^verbatim>\<open>getCount() = k\<close> (so the last one sees \<open>n\<close>), and the \<open>n\<close>-th firing ends in the Stopped
  state with nothing pending, so that no further firing can happen. Once that last handler
  has completed \<^verbatim>\<open>getCount()\<close> is 0, not \<open>n\<close>, because the handler ends with \<^verbatim>\<open>stop()\<close>,
  which resets the counter.
\<close>

theorem start_count_exhaustion:
  assumes "0 < n" "t_callback (self w) = no_calls" "owned w"
  shows "\<exists>v w'. fire_times (n - 1) (start (Some (Num (int n))) w) = Some v \<and>
           getState v = PLAY \<and> getCount v = int n - 1 \<and>
           fire_next v = Some w' \<and>
           fire_times n (start (Some (Num (int n))) w) = Some w' \<and>
           cb_log w' = cb_log w @ map int [1..<Suc n] \<and>
           getState w' = STOP \<and> pending (env w') = [] \<and> fire_next w' = None \<and>
           getCount w' = 0"
proof -
  obtain k where k: "n = Suc k" using assms(1) by (cases n) auto
  have a: "armed (Num (1 + int k)) 0 (start (Some (Num (int n))) w)"
    and l: "cb_log (start (Some (Num (int n))) w) = cb_log w"
    using start_armed [OF assms(2,3), of "Num (int n)"] k by (simp_all add: algebra_simps)
  from fire_times_last [OF a] obtain v w' where
    r: "fire_times k (start (Some (Num (int n))) w) = Some v" "armed (Num 1) (int k) v"
       "fire_next v = Some w'" "fire_times (Suc k) (start (Some (Num (int n))) w) = Some w'"
       "idle (Num 0) w'"
       "cb_log w' = cb_log (start (Some (Num (int n))) w) @ map (\<lambda>i. 0 + int i) [1..<Suc (Suc k)]"
    by auto
  have "fire_next w' = None"
    using r(5) by (simp add: idle_def fire_next_def)
  then show ?thesis using r l k
    by (auto simp: armed_def idle_def getter_defs)
qed

text \<open>
  The theorem at \<open>n = 2\<close> on the one-second timer: two invocations, which see the counts 1
  and 2, then Stopped with the counter back at 0.
\<close>

theorem start_count_exhaustion_witness:
  "0 < (2::nat) \<and> t_callback (self demo) = no_calls \<and> owned demo \<and>
   map_option cb_log (fire_times 2 (start (Some (Num 2)) demo)) = Some [1, 2] \<and>
   map_option getState (fire_times 2 (start (Some (Num 2)) demo)) = Some STOP \<and>
   map_option getCount (fire_times 2 (start (Some (Num 2)) demo)) = Some 0"
proof -
  have h: "0 < (2::nat)" "t_callback (self demo) = no_calls" "owned demo"
    by (simp_all add: demo_def Timer_def host0_def owned_def)
  from start_count_exhaustion [OF h] obtain w' where
    "fire_times 2 (start (Some (Num (int 2))) demo) = Some w'"
    "cb_log w' = cb_log demo @ map int [1..<Suc 2]"
    "getState w' = STOP" "getCount w' = 0"
    by blast
  moreover have "cb_log demo = []" by (simp add: demo_def Timer_def)
  moreover have "map int [1..<Suc 2] = [1, 2]" by (simp add: upt_rec)
  ultimately show ?thesis using h by simp
qed

text \<open>
  The claim as stated fails: after \<^verbatim>\<open>start(2)\<close> and both firings of the one-second timer,
  \<^verbatim>\<open>getCount()\<close> is 0 and not 2, although the callback has been invoked twice and the
  timer is Stopped.
\<close>

theorem getCount_after_last_firing_counterexample:
  "map_option getCount (fire_times 2 (start (Some (Num 2)) demo)) = Some 0 \<and>
   map_option getCount (fire_times 2 (start (Some (Num 2)) demo)) \<noteq> Some 2 \<and>
   map_option cb_log (fire_times 2 (start (Some (Num 2)) demo)) = Some [1, 2] \<and>
   map_option getState (fire_times 2 (start (Some (Num 2)) demo)) = Some STOP"
  by (simp add: demo_def eval_defs numeral_2_eq_2)

subsection \<open>C2: the remaining fire count is not negative\<close>




subsection \<open>C3: who writes the accumulated pause\<close>



subsection \<open>C4: the handle and the Running state\<close>

text \<open>
  Claim C4, as amended. In every state reached from a new timer, with any callback, by
  public calls, firings and clock advances: if the timer is Running then \<^verbatim>\<open>_interval\<close> is
  not null. The converse does not hold, because no method ever sets the field back to
  null: \<^verbatim>\<open>stop()\<close> and \<^verbatim>\<open>pause()\<close> leave \<^verbatim>\<open>_interval\<close> as it is and cancel the task it names,
  so that afterwards no task with that id is pending.
\<close>

theorem running_has_handle:
  assumes "run evs (Timer d cb (host0 t0)) = Some w"
  shows "(isRunning w \<longrightarrow> t_interval (self w) \<noteq> None)
       \<and> t_interval (self (stop w)) = t_interval (self w)
       \<and> t_interval (self (pause w)) = t_interval (self w)
       \<and> (\<forall>i. t_interval (self w) = Some i \<longrightarrow>
             map_of (pending (env (stop w))) i = None \<and>
             map_of (pending (env (pause w))) i = None)"
proof -
  have "handle_ok (Timer d cb (host0 t0))"
    by (simp add: handle_ok_def Timer_def)
  from handle_ok_run [OF this assms] show ?thesis
    by (simp add: handle_ok_def getter_defs stop_fields pause_fields cleared_handle)
qed

text \<open>
  The theorem on the timer of the README's first example after \<^verbatim>\<open>start()\<close> and one firing:
  it is running and holds the handle 3.
\<close>

theorem running_has_handle_witness:
  "run [Call (Start None), Fire 1] (Timer 0 (\<lambda>c. [SetDelay 1000]) (host0 0)) = Some demo_setDelay \<and>
   isRunning demo_setDelay \<and> t_interval (self demo_setDelay) \<noteq> None \<and>
   t_interval (self (stop demo_setDelay)) = Some 3 \<and>
   map_of (pending (env (stop demo_setDelay))) 3 = None"
proof -
  have i: "t_interval (self demo_setDelay) = Some 3" "isRunning demo_setDelay"
    by (simp_all add: demo_setDelay_def getter_defs)
  then show ?thesis
    using running_has_handle [OF run_setDelay_demo] run_setDelay_demo by simp
qed

text \<open>
  The claim as stated fails: after \<^verbatim>\<open>start()\<close> and \<^verbatim>\<open>stop()\<close> on the new one-second timer the
  state is Stopped, nothing is pending, and \<^verbatim>\<open>_interval\<close> still holds the id 1.
\<close>

theorem stale_handle_counterexample:
  "run [Call (Start None), Call Stop] demo = Some (stop (start None demo)) \<and>
   getState (stop (start None demo)) = STOP \<and>
   t_interval (self (stop (start None demo))) = Some 1 \<and>
   t_interval (self (stop (start None demo))) \<noteq> None \<and>
   pending (env (stop (start None demo))) = []"
  by (simp add: demo_def eval_defs)

subsection \<open>C5: the remaining time\<close>


subsection \<open>C6: toggle\<close>

text \<open>
  Claim C6, as amended. \<^verbatim>\<open>toggle()\<close> in the Running state yields Paused. In the Paused or
  the Stopped state it yields Running when the remaining fire count is positive, and
  Stopped when it is not: \<^verbatim>\<open>toggle()\<close> is then \<^verbatim>\<open>play()\<close>, which is \<^verbatim>\<open>stop()\<close> when no firing
  is left.
\<close>

theorem toggle_state:
  "getState (toggle w) =
     (if isRunning w then PAUSE else if gt0 (t_maxCount (self w)) then PLAY else STOP)"
  by (simp add: method_defs host_defs getter_defs Let_def split: option.splits)

text \<open>
  The claim as stated fails: the one-second timer after \<^verbatim>\<open>once()\<close> and its firing is
  Stopped, and \<^verbatim>\<open>toggle()\<close> leaves it Stopped.
\<close>

theorem toggle_exhausted_counterexample:
  "run [Call Once, Advance 1000, Fire 1] demo = Some demo_exhausted \<and>
   getState demo_exhausted = STOP \<and> getState (toggle demo_exhausted) \<noteq> PLAY"
  by (rule conjI, rule run_once_demo) (simp add: demo_exhausted_def eval_defs)

subsection \<open>C7: once\<close>



subsection \<open>C8: what stop leaves alone\<close>

text \<open>
  Claim C8. \<^verbatim>\<open>stop()\<close> changes \<^verbatim>\<open>_count\<close>, \<^verbatim>\<open>_pausedTime\<close>, \<^verbatim>\<open>_currentTime\<close>, \<^verbatim>\<open>_lastTime\<close> and
  \<^verbatim>\<open>_state\<close> and no other field of the timer: \<^verbatim>\<open>_maxCount\<close>, \<^verbatim>\<open>_delay\<close>, \<^verbatim>\<open>_callback\<close> (and
  \<^verbatim>\<open>_interval\<close>) are as before. Consequently, when no firing is left, \<^verbatim>\<open>play()\<close> and
  \<^verbatim>\<open>toggle()\<close> after the \<^verbatim>\<open>stop()\<close> leave the timer Stopped.
\<close>

theorem stop_frame:
  "self (stop w) =
     (self w)\<lparr>t_count := 0, t_pausedTime := 0, t_currentTime := Date_getTime w,
              t_lastTime := Date_getTime w, t_state := STOP\<rparr>
   \<and> t_maxCount (self (stop w)) = t_maxCount (self w)
   \<and> t_delay (self (stop w)) = t_delay (self w)
   \<and> t_callback (self (stop w)) = t_callback (self w)
   \<and> t_interval (self (stop w)) = t_interval (self w)
   \<and> (\<not> gt0 (t_maxCount (self w)) \<longrightarrow>
        getState (play (stop w)) = STOP \<and> getState (toggle (stop w)) = STOP \<and>
        getState (play w) = STOP \<and> (\<not> isRunning w \<longrightarrow> getState (toggle w) = STOP))"
  by (simp add: method_defs host_defs getter_defs Let_def split: option.splits)

text \<open>
  The theorem on the one-second timer after \<^verbatim>\<open>once()\<close> and its firing, whose last act was
  \<^verbatim>\<open>stop()\<close>: no firing is left, and \<^verbatim>\<open>play()\<close> and \<^verbatim>\<open>toggle()\<close> leave it Stopped.
\<close>

theorem stop_frame_witness:
  "run [Call Once, Advance 1000, Fire 1] demo = Some demo_exhausted \<and>
   \<not> gt0 (t_maxCount (self demo_exhausted)) \<and> \<not> isRunning demo_exhausted \<and>
   t_maxCount (self (stop demo_exhausted)) = Num 0 \<and>
   getState (play demo_exhausted) = STOP \<and> getState (toggle demo_exhausted) = STOP \<and>
   getState (play (stop demo_exhausted)) = STOP \<and>
   getState (toggle (stop demo_exhausted)) = STOP"
proof -
  have h: "\<not> gt0 (t_maxCount (self demo_exhausted))" "\<not> isRunning demo_exhausted"
    "t_maxCount (self demo_exhausted) = Num 0"
    by (simp_all add: demo_exhausted_def getter_defs)
  then show ?thesis using stop_frame [of demo_exhausted] run_once_demo by simp
qed

subsection \<open>C9: a new timer\<close>

text \<open>
  Claim C9. A new timer has remaining fire count infinity, fired count 0, accumulated
  pause 0 and state Stopped, so \<^verbatim>\<open>play()\<close> or \<^verbatim>\<open>toggle()\<close> on it, with no \<^verbatim>\<open>start()\<close> before,
  enters Running. The number of firings is then unbounded: when the callback leaves the
  timer alone and nothing else is scheduled, for every \<open>k\<close> the host fires \<open>k\<close> times in a
  row, after which the timer is still running with an infinite count left and the
  callback has been invoked \<open>k\<close> times.
\<close>

theorem fresh_timer_unbounded:
  "t_maxCount (self (Timer d cb h)) = PosInf \<and> getCount (Timer d cb h) = 0
   \<and> t_pausedTime (self (Timer d cb h)) = 0 \<and> getState (Timer d cb h) = STOP
   \<and> getState (play (Timer d cb h)) = PLAY \<and> getState (toggle (Timer d cb h)) = PLAY
   \<and> t_maxCount (self (play (Timer d cb h))) = PosInf
   \<and> toggle (Timer d cb h) = play (Timer d cb h)
   \<and> (\<exists>v. fire_times k (play (Timer d no_calls (h\<lparr>pending := []\<rparr>))) = Some v \<and> getState v = PLAY \<and>
          t_maxCount (self v) = PosInf \<and> getCount v = int k \<and>
          cb_log v = map int [1..<Suc k])"
proof -
  let ?w = "Timer d no_calls (h\<lparr>pending := []\<rparr>)"
  have "armed (t_maxCount (self ?w)) (t_count (self ?w)) (play ?w)"
    by (rule play_armed) (simp_all add: Timer_def owned_def)
  then have a: "armed PosInf 0 (play ?w)" by (simp add: Timer_def)
  have "gt0 (t_maxCount (self ?w))" by (simp add: Timer_def)
  then have l: "cb_log (play ?w) = []"
    by (simp add: play_fields) (simp add: Timer_def)
  from fire_times_armed [OF a, of k] obtain v where
    "fire_times k (play ?w) = Some v" "armed PosInf (0 + int k) v"
    "cb_log v = cb_log (play ?w) @ map (\<lambda>i. 0 + int i) [1..<Suc k]"
    by (auto simp: decr_funpow_PosInf)
  then have "\<exists>v. fire_times k (play ?w) = Some v \<and> getState v = PLAY \<and>
          t_maxCount (self v) = PosInf \<and> getCount v = int k \<and>
          cb_log v = map int [1..<Suc k]"
    using l by (auto simp: armed_def getter_defs)
  moreover have g: "gt0 (t_maxCount (self (Timer d cb h)))" by (simp add: Timer_def)
  have "t_maxCount (self (Timer d cb h)) = PosInf \<and> getCount (Timer d cb h) = 0
   \<and> t_pausedTime (self (Timer d cb h)) = 0 \<and> getState (Timer d cb h) = STOP
   \<and> getState (play (Timer d cb h)) = PLAY \<and> getState (toggle (Timer d cb h)) = PLAY
   \<and> t_maxCount (self (play (Timer d cb h))) = PosInf
   \<and> toggle (Timer d cb h) = play (Timer d cb h)"
    by (simp add: toggle_def getter_defs play_fields [OF g]) (simp add: Timer_def)
  ultimately show ?thesis by blast
qed

subsection \<open>C10: bounds of the remaining time\<close>

text \<open>
  Claim C10, as amended. With a positive delay, an elapsed time that is not negative and
  elapsed time plus delay below \<open>2 ^ 53\<close>, \<^verbatim>\<open>getRemainingTime()\<close> as the source computes it
  in binary64 is the exact value, lies between 1 and the delay, both included, and is
  never 0; when the elapsed time is an exact multiple of the delay it is the full delay.
  \<^verbatim>\<open>play()\<close> on a timer with firings left then schedules the next firing that many
  milliseconds from now, never at once.
\<close>

theorem getRemainingTime_bounds:
  assumes "0 < t_delay (self w)" "0 \<le> getElapsedTime w"
    "getElapsedTime w + t_delay (self w) < 2 ^ 53"
  shows "getRemainingTime64 w = of_int (getRemainingTime w)
       \<and> 1 \<le> getRemainingTime64 w \<and> getRemainingTime64 w \<le> of_int (t_delay (self w))
       \<and> getRemainingTime64 w \<noteq> 0
       \<and> (t_delay (self w) dvd getElapsedTime w \<longrightarrow>
            getRemainingTime64 w = of_int (t_delay (self w)))
       \<and> (gt0 (t_maxCount (self w)) \<longrightarrow>
            last (pending (env (play w))) =
              (next_id (env w), \<lparr>runs = Timeout, task_delay = getRemainingTime w,
                                 due = clock (env w) + getRemainingTime w\<rparr>) \<and>
            t_interval (self (play w)) = Some (next_id (env w)) \<and>
            clock (env (play w)) < due (snd (last (pending (env (play w))))))"
proof -
  have e: "getRemainingTime64 w = of_int (getRemainingTime w)"
    using assms by (rule getRemainingTime64_exact)
  have b: "1 \<le> getRemainingTime w" "getRemainingTime w \<le> t_delay (self w)"
    using round_up_bounds [OF assms(1), of "getElapsedTime w"] assms(1)
    by (simp_all add: getRemainingTime_div)
  have m: "getRemainingTime w = t_delay (self w)" if "t_delay (self w) dvd getElapsedTime w"
    using round_up_multiple [OF assms(1) that] assms(1) by (simp add: getRemainingTime_div)
  have s: "last (pending (env (play w))) =
              (next_id (env w), \<lparr>runs = Timeout, task_delay = getRemainingTime w,
                                 due = clock (env w) + getRemainingTime w\<rparr>) \<and>
            t_interval (self (play w)) = Some (next_id (env w)) \<and>
            clock (env (play w)) < due (snd (last (pending (env (play w)))))"
    if g: "gt0 (t_maxCount (self w))"
    using play_schedules [OF g] play_fields(4) [OF g] b by simp
  have "1 \<le> getRemainingTime64 w" "getRemainingTime64 w \<le> of_int (t_delay (self w))"
    using b by (simp_all add: e)
  then show ?thesis using e m s by auto
qed

text \<open>
  The theorem on the one-second timer 400 ms after \<^verbatim>\<open>start()\<close>, where 600 ms remain and
  \<^verbatim>\<open>play()\<close> schedules the firing for clock reading 1000; and on the new one-second timer,
  where the elapsed time 0 is a multiple of the delay and the full second remains.
\<close>

theorem getRemainingTime_bounds_witness:
  "0 < t_delay (self demo_waiting) \<and> 0 \<le> getElapsedTime demo_waiting \<and>
   getElapsedTime demo_waiting + t_delay (self demo_waiting) < 2 ^ 53 \<and>
   gt0 (t_maxCount (self demo_waiting)) \<and>
   getElapsedTime demo_waiting = 400 \<and> getRemainingTime64 demo_waiting = 600 \<and>
   last (pending (env (play demo_waiting))) =
     (2, \<lparr>runs = Timeout, task_delay = 600, due = 1000\<rparr>) \<and>
   0 < t_delay (self demo) \<and> 0 \<le> getElapsedTime demo \<and>
   getElapsedTime demo + t_delay (self demo) < 2 ^ 53 \<and>
   t_delay (self demo) dvd getElapsedTime demo \<and> getRemainingTime64 demo = 1000"
proof -
  have h: "0 < t_delay (self demo_waiting)" "0 \<le> getElapsedTime demo_waiting"
    "getElapsedTime demo_waiting + t_delay (self demo_waiting) < 2 ^ 53"
    and g: "gt0 (t_maxCount (self demo_waiting))"
    and v: "getElapsedTime demo_waiting = 400" "getRemainingTime demo_waiting = 600"
      "next_id (env demo_waiting) = 2" "clock (env demo_waiting) = 400"
    by (simp_all add: demo_waiting_def getter_defs Date_getTime_def getRemainingTime_div)
  have h': "0 < t_delay (self demo)" "0 \<le> getElapsedTime demo"
    "getElapsedTime demo + t_delay (self demo) < 2 ^ 53"
    and d: "t_delay (self demo) = 1000" "getElapsedTime demo = 0"
    by (simp_all add: demo_def Timer_def host0_def getter_defs)
  have "getRemainingTime64 demo_waiting = 600 \<and>
   last (pending (env (play demo_waiting))) =
     (2, \<lparr>runs = Timeout, task_delay = 600, due = 1000\<rparr>)"
    using getRemainingTime_bounds [OF h] h g v by simp
  moreover have "getRemainingTime64 demo = 1000"
    using getRemainingTime_bounds [OF h'] h' d by simp
  ultimately show ?thesis using h g v h' d by simp
qed

text \<open>
  The claim as stated fails once elapsed time plus delay reaches \<open>2 ^ 53\<close>. With delay 1
  and elapsed time \<open>2 ^ 53\<close> the sum \<^verbatim>\<open>t + 1\<close> rounds back to \<open>2 ^ 53\<close> and the result is 0.
  With delay 7 and elapsed time \<open>2 ^ 53 - 4\<close> the product rounds up and the result is 8,
  more than the delay.
\<close>

theorem getRemainingTime_beyond_2_53_counterexample:
  "run [Call (Start None), Advance 9007199254740992] (Timer 1 no_calls (host0 0))
     = Some (demo_far 1 9007199254740992) \<and>
   0 < t_delay (self (demo_far 1 9007199254740992)) \<and>
   getElapsedTime (demo_far 1 9007199254740992) = 9007199254740992 \<and>
   getRemainingTime64 (demo_far 1 9007199254740992) = 0 \<and>
   \<not> 1 \<le> getRemainingTime64 (demo_far 1 9007199254740992) \<and>
   run [Call (Start None), Advance 9007199254740988] (Timer 7 no_calls (host0 0))
     = Some (demo_far 7 9007199254740988) \<and>
   t_delay (self (demo_far 7 9007199254740988)) = 7 \<and>
   getElapsedTime (demo_far 7 9007199254740988) = 9007199254740988 \<and>
   getRemainingTime64 (demo_far 7 9007199254740988) = 8 \<and>
   \<not> getRemainingTime64 (demo_far 7 9007199254740988) \<le> 7"
proof -
  have "getElapsedTime (demo_far 1 9007199254740992) = 9007199254740992"
    "getElapsedTime (demo_far 7 9007199254740988) = 9007199254740988"
    "t_delay (self (demo_far 1 9007199254740992)) = 1"
    "t_delay (self (demo_far 7 9007199254740988)) = 7"
    by (simp_all add: demo_far_def getter_defs Date_getTime_def)
  then show ?thesis using run_far_1 run_far_7 far_1 far_7 by simp
qed

end
